theory Spec2Isabelle
  imports Main "HOL-Library.Word" "HOL-Library.Sublist"
begin

section \<open>The SPIR-V to C++ header converter (CMakeModules/spv_to_header.py)\<close>

text \<open>
  The script reads a binary file, renders a C++ header holding the bytes as an array, and
  writes the header. The model follows the source line by line: the text is the sequence
  of \<^verbatim>\<open>f.write\<close> calls, the row loop is a recursion on the index \<open>i\<close>, the files are a
  map from paths to nodes, and every \<^verbatim>\<open>print\<close> appends to the standard output.

  Python's \<^verbatim>\<open>bytes\<close> is a list of 8-bit words. Python's \<^verbatim>\<open>str\<close> is a \<open>string\<close>, and
  the model is that of ASCII text on a POSIX platform (the newline written is the newline
  stored, and \<^verbatim>\<open>os.path\<close> is \<^verbatim>\<open>posixpath\<close>). Outside ASCII, what
  \<^verbatim>\<open>str.upper\<close> returns and how text is encoded into a file are decided by Unicode
  tables and by the locale, which the model does not have: every statement below that
  depends on either assumes the text to be \<open>ascii\<close>.
\<close>

subsection \<open>Python's built-ins used by the script\<close>

type_synonym byte = "8 word"

text \<open>The format specifications \<^verbatim>\<open>x\<close> and \<^verbatim>\<open>d\<close> (the default for an int) on a natural number.\<close>

definition hex_digit :: "nat \<Rightarrow> char" where
  "hex_digit d = ''0123456789abcdef'' ! d"

fun hex_str :: "nat \<Rightarrow> string" where
  "hex_str n = (if n < 16 then [hex_digit n] else hex_str (n div 16) @ [hex_digit (n mod 16)])"

declare hex_str.simps [simp del]

definition dec_digit :: "nat \<Rightarrow> char" where
  "dec_digit d = ''0123456789'' ! d"

fun dec_str :: "nat \<Rightarrow> string" where
  "dec_str n = (if n < 10 then [dec_digit n] else dec_str (n div 10) @ [dec_digit (n mod 10)])"

declare dec_str.simps [simp del]

text \<open>The \<^verbatim>\<open>02\<close> of \<^verbatim>\<open>{b:02x}\<close>: zeros on the left up to a width of two.\<close>

definition zero_pad :: "nat \<Rightarrow> string \<Rightarrow> string" where
  "zero_pad w s = replicate (w - length s) (CHR ''0'') @ s"

text \<open>\<^verbatim>\<open>f'0x{b:02x}'\<close> for a byte \<open>b\<close>.\<close>

definition hex_literal :: "byte \<Rightarrow> string" where
  "hex_literal b = ''0x'' @ zero_pad 2 (hex_str (unat b))"

text \<open>\<^verbatim>\<open>sep.join(xs)\<close>.\<close>

fun str_join :: "string \<Rightarrow> string list \<Rightarrow> string" where
  "str_join sep [] = []"
| "str_join sep [x] = x"
| "str_join sep (x # y # ys) = x @ sep @ str_join sep (y # ys)"


text \<open>
  \<^verbatim>\<open>str.upper\<close> on ASCII text: the letters a to z move to A to Z, all else stays. On
  other text Python follows the Unicode tables (code point 0xE9 becomes 0xC9, 0xDF becomes
  the two letters SS), which \<open>upper\<close> does not: it is \<^verbatim>\<open>str.upper\<close> on \<open>ascii\<close> strings
  only.
\<close>

definition upper_char :: "char \<Rightarrow> char" where
  "upper_char c =
     (let n = (of_char c :: nat) in if 97 \<le> n \<and> n \<le> 122 then char_of (n - 32) else c)"

definition upper :: "string \<Rightarrow> string" where
  "upper s = map upper_char s"

text \<open>\<^verbatim>\<open>posixpath.basename\<close>: what follows the last slash.\<close>

definition basename :: "string \<Rightarrow> string" where
  "basename p = rev (takeWhile (\<lambda>c. c \<noteq> CHR ''/'') (rev p))"

subsection \<open>The text written by \<^verbatim>\<open>spv_to_header\<close>\<close>

text \<open>One row of the array: the \<^verbatim>\<open>f.write\<close> of the loop body for one chunk.\<close>

definition row_text :: "byte list \<Rightarrow> string" where
  "row_text chunk = ''    '' @ str_join '', '' (map hex_literal chunk) @ '',\<newline>''"

text \<open>
  \<^verbatim>\<open>for i in range(0, len(spv_data), 12)\<close>: the rows written from index \<open>i\<close> on. The slice
  \<^verbatim>\<open>spv_data[i:i+12]\<close> stops at the end of the data, as \<open>take\<close> does.
\<close>

function rows_from :: "nat \<Rightarrow> byte list \<Rightarrow> string list" where
  "rows_from i spv_data =
     (if i < length spv_data
      then row_text (take 12 (drop i spv_data)) # rows_from (i + 12) spv_data
      else [])"
  by pat_completeness auto
termination
  by (relation "measure (\<lambda>(i, d). length d - i)") auto

declare rows_from.simps [simp del]

definition guard_name :: "string \<Rightarrow> string" where
  "guard_name var_name = ''SHADER_'' @ upper var_name @ ''_H''"

text \<open>The calls of \<^verbatim>\<open>f.write\<close>, in order: nine before the loop, the rows, three after.\<close>

definition writes_before :: "string \<Rightarrow> byte list \<Rightarrow> string \<Rightarrow> string list" where
  "writes_before spv_file spv_data var_name =
     [''// Auto-generated from '' @ basename spv_file @ ''\<newline>'',
      ''// DO NOT EDIT!\<newline>\<newline>'',
      ''#ifndef '' @ guard_name var_name @ ''\<newline>'',
      ''#define '' @ guard_name var_name @ ''\<newline>\<newline>'',
      ''#include <cstdint>\<newline>'',
      ''#include <cstddef>\<newline>\<newline>'',
      ''namespace Shaders {\<newline>\<newline>'',
      ''constexpr size_t '' @ var_name @ ''_size = '' @ dec_str (length spv_data) @ '';\<newline>\<newline>'',
      ''constexpr uint8_t '' @ var_name @ ''_data[] = {\<newline>'']"

definition writes_after :: "string \<Rightarrow> string list" where
  "writes_after var_name =
     [''};\<newline>\<newline>'',
      ''} // namespace Shaders\<newline>\<newline>'',
      ''#endif // '' @ guard_name var_name @ ''\<newline>'']"

definition header_writes :: "string \<Rightarrow> byte list \<Rightarrow> string \<Rightarrow> string list" where
  "header_writes spv_file spv_data var_name =
     writes_before spv_file spv_data var_name @ rows_from 0 spv_data @ writes_after var_name"

definition array_body :: "byte list \<Rightarrow> string" where
  "array_body spv_data = concat (rows_from 0 spv_data)"

definition header_text :: "string \<Rightarrow> byte list \<Rightarrow> string \<Rightarrow> string" where
  "header_text spv_file spv_data var_name = concat (header_writes spv_file spv_data var_name)"

subsection \<open>Reading the array back\<close>

text \<open>
  The reader a consumer of the generated file would use on the array body, the text
  between the line that opens the array and the line that closes it. It is strict: a line
  is four spaces, then literals \<^verbatim>\<open>0xHH\<close> with lowercase digits, each followed by a
  comma, one space between a comma and the next literal; anything else is rejected.
\<close>

fun digit_index :: "char \<Rightarrow> string \<Rightarrow> nat \<Rightarrow> nat option" where
  "digit_index c [] k = None"
| "digit_index c (d # ds) k = (if c = d then Some k else digit_index c ds (Suc k))"

definition hex_value :: "char \<Rightarrow> nat option" where
  "hex_value c = digit_index c ''0123456789abcdef'' 0"

definition parse_literal :: "string \<Rightarrow> byte option" where
  "parse_literal s =
     (case s of
        [z, x, h1, h2] \<Rightarrow>
          (if z = CHR ''0'' \<and> x = CHR ''x''
           then (case (hex_value h1, hex_value h2) of
                   (Some a, Some b) \<Rightarrow> Some (of_nat (16 * a + b))
                 | _ \<Rightarrow> None)
           else None)
      | _ \<Rightarrow> None)"

fun parse_items :: "string \<Rightarrow> byte list option" where
  "parse_items [z, x, h1, h2, c] =
     (if c = CHR '','' then map_option (\<lambda>b. [b]) (parse_literal [z, x, h1, h2]) else None)"
| "parse_items (z # x # h1 # h2 # c # s # more) =
     (if c = CHR '','' \<and> s = CHR '' ''
      then (case parse_literal [z, x, h1, h2] of
              None \<Rightarrow> None
            | Some b \<Rightarrow> map_option (\<lambda>bs. b # bs) (parse_items more))
      else None)"
| "parse_items _ = None"

fun parse_row :: "string \<Rightarrow> byte list option" where
  "parse_row (a # b # c # d # items) =
     (if a = CHR '' '' \<and> b = CHR '' '' \<and> c = CHR '' '' \<and> d = CHR '' ''
      then parse_items items else None)"
| "parse_row _ = None"

text \<open>The lines of a text, each ended by a newline; \<open>cur\<close> is the line being read.\<close>

fun lines_from :: "string \<Rightarrow> string \<Rightarrow> string list" where
  "lines_from cur [] = (if cur = [] then [] else [cur])"
| "lines_from cur (c # cs) =
     (if c = CHR ''\<newline>'' then cur # lines_from [] cs else lines_from (cur @ [c]) cs)"

fun all_rows :: "byte list option list \<Rightarrow> byte list option" where
  "all_rows [] = Some []"
| "all_rows (None # rs) = None"
| "all_rows (Some r # rs) = map_option (\<lambda>bs. r @ bs) (all_rows rs)"

definition decode_array :: "string \<Rightarrow> byte list option" where
  "decode_array body = all_rows (map parse_row (lines_from [] body))"

text \<open>The reader of a decimal literal, for the size constant.\<close>

fun read_dec :: "nat \<Rightarrow> string \<Rightarrow> nat option" where
  "read_dec acc [] = Some acc"
| "read_dec acc (c # cs) =
     (case digit_index c ''0123456789'' 0 of
        None \<Rightarrow> None
      | Some d \<Rightarrow> read_dec (10 * acc + d) cs)"

definition dec_value :: "string \<Rightarrow> nat option" where
  "dec_value s = (if s = [] then None else read_dec 0 s)"

subsection \<open>The persisted output format of the specification\<close>

text \<open>
  The layout the specification gives for the generated file, line by line, with its
  placeholders as parameters; every line ends with a newline.
\<close>

definition unlines :: "string list \<Rightarrow> string" where
  "unlines ls = concat (map (\<lambda>l. l @ ''\<newline>'') ls)"

definition persisted_format ::
  "string \<Rightarrow> string \<Rightarrow> string \<Rightarrow> string \<Rightarrow> string \<Rightarrow> string \<Rightarrow> string \<Rightarrow> string \<Rightarrow> string
     \<Rightarrow> string list \<Rightarrow> string" where
  "persisted_format origin marker name_upper width_include size_include size_type byte_type
       name count rows =
     unlines
       ([''// '' @ origin,
         ''// '' @ marker,
         [],
         ''#ifndef SHADER_'' @ name_upper @ ''_H'',
         ''#define SHADER_'' @ name_upper @ ''_H'',
         [],
         width_include,
         size_include,
         [],
         ''namespace Shaders {'',
         [],
         ''constexpr '' @ size_type @ '' '' @ name @ ''_size = '' @ count @ '';'',
         [],
         ''constexpr '' @ byte_type @ '' '' @ name @ ''_data[] = {'']
        @ rows @
        [''};'',
         [],
         ''} // namespace Shaders'',
         [],
         ''#endif // SHADER_'' @ name_upper @ ''_H''])"

subsection \<open>Files, standard streams and the process\<close>

text \<open>
  A path names a file or a directory, or nothing. A path is an opaque key: two spellings
  of one file are two keys. Text written to a file is stored as the bytes of its
  characters, which is its encoding when the text is \<open>ascii\<close>.
\<close>

datatype node = File "byte list" | Dir

definition encode :: "string \<Rightarrow> byte list" where
  "encode s = map (\<lambda>c. of_nat (of_char c)) s"

text \<open>
  The state of the process: the files, whether the system lets the process open a path
  for reading and for writing (permissions, the directory of the path being there), and
  what the script has written to the standard output and to the standard error. The
  traceback that the interpreter prints for an uncaught exception is not part of it.
\<close>

record world =
  files :: "string \<rightharpoonup> node"
  readable :: "string \<Rightarrow> bool"
  writable :: "string \<Rightarrow> bool"
  stdout :: string
  stderr :: string

text \<open>
  The exceptions of \<^verbatim>\<open>open\<close>; \<open>OSError\<close> stands for whichever other subclass the system
  raises when it refuses the path.
\<close>

datatype exn = FileNotFoundError string | IsADirectoryError string | OSError string

text \<open>\<^verbatim>\<open>open(p, 'rb')\<close> followed by \<^verbatim>\<open>f.read()\<close>: the whole content, or an exception.\<close>

definition read_binary :: "world \<Rightarrow> string \<Rightarrow> exn + byte list" where
  "read_binary w p =
     (case files w p of
        None \<Rightarrow> Inl (FileNotFoundError p)
      | Some Dir \<Rightarrow> Inl (IsADirectoryError p)
      | Some (File bs) \<Rightarrow> if readable w p then Inr bs else Inl (OSError p))"

text \<open>
  \<^verbatim>\<open>open(p, 'w')\<close>: the file is created, or emptied if it is there, at once and under
  its own name; or an exception, and then no file has changed.
\<close>

definition open_write :: "world \<Rightarrow> string \<Rightarrow> exn + world" where
  "open_write w p =
     (case files w p of
        Some Dir \<Rightarrow> Inl (IsADirectoryError p)
      | _ \<Rightarrow> if writable w p then Inr (w\<lparr>files := (files w)(p \<mapsto> File [])\<rparr>)
             else Inl (OSError p))"

text \<open>
  How far the writing of a text to an open file has come, as another process sees it: the
  file is not open yet, or it is open and the first \<open>k\<close> characters have reached it. The
  calls of \<^verbatim>\<open>f.write\<close> go through a buffer, so the text reaches the file in order, in
  pieces that need not end where a call ends; leaving the \<^verbatim>\<open>with\<close> block flushes the
  rest. A failure while writing (a full disk) is outside the model.
\<close>

datatype progress = Not_opened | Flushed nat

fun files_at :: "progress \<Rightarrow> string \<Rightarrow> string \<Rightarrow> (string \<rightharpoonup> node) \<Rightarrow> (string \<rightharpoonup> node)" where
  "files_at Not_opened p text fs = fs"
| "files_at (Flushed k) p text fs = fs(p \<mapsto> File (encode (take k text)))"

text \<open>\<^verbatim>\<open>print(s)\<close>: the text and a newline, on the standard output.\<close>

definition print :: "string \<Rightarrow> world \<Rightarrow> world" where
  "print s w = w\<lparr>stdout := stdout w @ s @ ''\<newline>''\<rparr>"

text \<open>
  The function \<^verbatim>\<open>spv_to_header\<close>: read the input, open the header, write the text (all
  of it has reached the file when the \<^verbatim>\<open>with\<close> block is left), print the message.
\<close>

definition spv_to_header :: "string \<Rightarrow> string \<Rightarrow> string \<Rightarrow> world \<Rightarrow> exn + world" where
  "spv_to_header spv_file header_file var_name w =
     (case read_binary w spv_file of
        Inl e \<Rightarrow> Inl e
      | Inr spv_data \<Rightarrow>
          (case open_write w header_file of
             Inl e \<Rightarrow> Inl e
           | Inr w1 \<Rightarrow>
               (let text = header_text spv_file spv_data var_name
                in Inr (print (''Generated '' @ header_file @ '' ('' @ dec_str (length spv_data)
                                @ '' bytes)'')
                         (w1\<lparr>files :=
                              files_at (Flushed (length text)) header_file text (files w1)\<rparr>)))))"

text \<open>
  The script's entry point. \<^verbatim>\<open>sys.exit(1)\<close> ends the process with status 1, the end of
  the script with status 0, and an exception nobody catches ends it with that exception.
  \<^verbatim>\<open>os.path.exists\<close> holds of files and of directories.
\<close>

datatype status = Exit nat | Uncaught exn

definition main :: "string list \<Rightarrow> world \<Rightarrow> status \<times> world" where
  "main argv w =
     (if length argv \<noteq> 4
      then (Exit 1, print ''Usage: spv_to_header.py <input.spv> <output.h> <variable_name>'' w)
      else
        (let spv_file = argv ! 1; header_file = argv ! 2; var_name = argv ! 3
         in if files w spv_file = None
            then (Exit 1, print (''Error: '' @ spv_file @ '' not found'') w)
            else (case spv_to_header spv_file header_file var_name w of
                    Inl e \<Rightarrow> (Uncaught e, w)
                  | Inr w' \<Rightarrow> (Exit 0, w'))))"

section \<open>Properties\<close>

subsection \<open>Literals and rows\<close>

lemma below_16:
  assumes "(d::nat) < 16"
  shows "d = 0 \<or> d = 1 \<or> d = 2 \<or> d = 3 \<or> d = 4 \<or> d = 5 \<or> d = 6 \<or> d = 7 \<or> d = 8
    \<or> d = 9 \<or> d = 10 \<or> d = 11 \<or> d = 12 \<or> d = 13 \<or> d = 14 \<or> d = 15"
proof -
  have "[0..<16] = [0, 1, 2, 3, 4, 5, 6, 7, 8, 9, 10, 11, 12, 13, 14, 15 :: nat]"
    by (simp add: upt_rec)
  moreover from assms have "d \<in> set [0..<16]" by simp
  ultimately show ?thesis by simp
qed

lemma hex_value_hex_digit: "d < 16 \<Longrightarrow> hex_value (hex_digit d) = Some d"
proof -
  assume "d < 16"
  then have "d = 0 \<or> d = 1 \<or> d = 2 \<or> d = 3 \<or> d = 4 \<or> d = 5 \<or> d = 6 \<or> d = 7 \<or> d = 8
    \<or> d = 9 \<or> d = 10 \<or> d = 11 \<or> d = 12 \<or> d = 13 \<or> d = 14 \<or> d = 15"
    by (rule below_16)
  then show ?thesis
    by (elim disjE) (simp_all add: hex_value_def hex_digit_def)
qed

lemma hex_str_byte: "n < 256 \<Longrightarrow> zero_pad 2 (hex_str n) = [hex_digit (n div 16), hex_digit (n mod 16)]"
proof (cases "n < 16")
  case True
  then show ?thesis by (simp add: hex_str.simps zero_pad_def hex_digit_def)
next
  case False
  assume "n < 256"
  with False have "n div 16 < 16" by simp
  with False show ?thesis
    by (simp add: hex_str.simps[of n] hex_str.simps[of "n div 16"] zero_pad_def)
qed

lemma hex_literal_eq:
  "hex_literal b = [CHR ''0'', CHR ''x'', hex_digit (unat b div 16), hex_digit (unat b mod 16)]"
proof -
  have "unat b < 256" using unsigned_less[of b] by simp
  then show ?thesis by (simp add: hex_literal_def hex_str_byte)
qed

lemma parse_literal_hex_literal: "parse_literal (hex_literal b) = Some b"
proof -
  have lt: "unat b < 256" using unsigned_less[of b] by simp
  then have d: "unat b div 16 < 16" by simp
  have m: "unat b mod 16 < 16" by simp
  have "16 * (unat b div 16) + unat b mod 16 = unat b" by simp
  then show ?thesis
    by (simp add: hex_literal_eq parse_literal_def hex_value_hex_digit[OF d] hex_value_hex_digit[OF m])
qed

lemma parse_items_last: "parse_items (hex_literal x @ '','') = Some [x]"
  using parse_literal_hex_literal[of x] by (simp add: hex_literal_eq)

lemma parse_items_more:
  "parse_items (hex_literal x @ '', '' @ rest) = map_option (\<lambda>bs. x # bs) (parse_items rest)"
  using parse_literal_hex_literal[of x] by (simp add: hex_literal_eq)

lemma parse_items_join:
  "chunk \<noteq> [] \<Longrightarrow> parse_items (str_join '', '' (map hex_literal chunk) @ '','') = Some chunk"
proof (induction chunk rule: induct_list012)
  case 1
  then show ?case by simp
next
  case (2 x)
  show ?case using parse_items_last[of x] by simp
next
  case (3 x y ys)
  then have ih: "parse_items (str_join '', '' (map hex_literal (y # ys)) @ '','') = Some (y # ys)"
    by simp
  have "str_join '', '' (map hex_literal (x # y # ys)) @ '',''
      = hex_literal x @ '', '' @ (str_join '', '' (map hex_literal (y # ys)) @ '','')"
    by simp
  then show ?case
    using parse_items_more[of x "str_join '', '' (map hex_literal (y # ys)) @ '',''"] ih
    by simp
qed

lemma parse_row_row_text:
  "chunk \<noteq> [] \<Longrightarrow> parse_row (butlast (row_text chunk)) = Some chunk"
  by (simp add: row_text_def butlast_append parse_items_join)

lemma hex_digit_lower: "d < 16 \<Longrightarrow> hex_digit d \<in> set ''0123456789abcdef''"
proof -
  assume "d < 16"
  then have "d = 0 \<or> d = 1 \<or> d = 2 \<or> d = 3 \<or> d = 4 \<or> d = 5 \<or> d = 6 \<or> d = 7 \<or> d = 8
    \<or> d = 9 \<or> d = 10 \<or> d = 11 \<or> d = 12 \<or> d = 13 \<or> d = 14 \<or> d = 15"
    by (rule below_16)
  then show ?thesis
    by (elim disjE) (simp_all add: hex_digit_def)
qed

lemma newline_free_literal: "CHR ''\<newline>'' \<notin> set (hex_literal b)"
proof -
  have "unat b < 256" using unsigned_less[of b] by simp
  then have d: "unat b div 16 < 16" by simp
  have m: "unat b mod 16 < 16" by simp
  show ?thesis
    using hex_digit_lower[OF d] hex_digit_lower[OF m] by (auto simp: hex_literal_eq)
qed

lemma newline_free_join:
  "CHR ''\<newline>'' \<notin> set (str_join '', '' (map hex_literal chunk))"
  by (induction chunk rule: induct_list012) (simp_all add: newline_free_literal)

lemma lines_from_line:
  "CHR ''\<newline>'' \<notin> set s \<Longrightarrow> lines_from cur (s @ CHR ''\<newline>'' # rest) = (cur @ s) # lines_from [] rest"
  by (induction s arbitrary: cur) auto

lemma lines_from_row_text:
  "lines_from [] (row_text chunk @ rest) = butlast (row_text chunk) # lines_from [] rest"
proof -
  let ?s = "''    '' @ str_join '', '' (map hex_literal chunk) @ '',''"
  have nf: "CHR ''\<newline>'' \<notin> set ?s" using newline_free_join[of chunk] by simp
  have "row_text chunk @ rest = ?s @ CHR ''\<newline>'' # rest" by (simp add: row_text_def)
  moreover have "butlast (row_text chunk) = ?s" by (simp add: row_text_def butlast_append)
  ultimately show ?thesis using lines_from_line[OF nf, of "[]" rest] by simp
qed

lemma decode_rows_from:
  "all_rows (map parse_row (lines_from [] (concat (rows_from i d)))) = Some (drop i d)"
proof (induction i d rule: rows_from.induct)
  case (1 i d)
  show ?case
  proof (cases "i < length d")
    case True
    then have ne: "take 12 (drop i d) \<noteq> []" by simp
    have "take 12 (drop i d) @ drop (i + 12) d = drop i d"
      by (metis add.commute append_take_drop_id drop_drop)
    with True 1 ne show ?thesis
      by (simp add: rows_from.simps[of i d] lines_from_row_text parse_row_row_text)
  next
    case False
    then show ?thesis by (simp add: rows_from.simps[of i d])
  qed
qed

lemma div12_step: "((m::nat) + 12) div 12 = Suc (m div 12)"
  by simp

lemma rows_count_step:
  assumes "i < (n::nat)"
  shows "Suc ((n - (i + 12) + 11) div 12) = (n - i + 11) div 12"
proof (cases "12 \<le> n - i")
  case True
  then have "n - i + 11 = (n - (i + 12) + 11) + 12" by simp
  then have "(n - i + 11) div 12 = ((n - (i + 12) + 11) + 12) div 12" by (rule arg_cong)
  also have "\<dots> = Suc ((n - (i + 12) + 11) div 12)" by (rule div12_step)
  finally show ?thesis by (rule sym)
next
  case False
  with assms have z: "n - (i + 12) = 0" and lo: "12 \<le> n - i + 11" and hi: "n - i + 11 < 24"
    by simp_all
  define m where "m = n - i + 11"
  from lo have "1 \<le> m div 12" unfolding m_def[symmetric] by (simp add: less_eq_div_iff_mult_less_eq)
  moreover from hi have "m div 12 < 2" unfolding m_def[symmetric] by (simp add: div_less_iff_less_mult)
  ultimately have "m div 12 = Suc 0" by (rule_tac le_antisym) simp_all
  then show ?thesis by (simp only: z m_def)
qed

lemma chunk_size:
  assumes "k < ((n::nat) + 11) div 12"
  shows "min 12 (n - 12 * k)
         = (if Suc k < (n + 11) div 12 then 12 else if n mod 12 = 0 then 12 else n mod 12)"
proof -
  define q where "q = (n + 11) div 12"
  define r where "r = n - 12 * k"
  define m where "m = n mod 12"
  have lo: "12 * q \<le> n + 11" unfolding q_def by simp
  have "n + 11 = 12 * q + (n + 11) mod 12" unfolding q_def by simp
  moreover have "(n + 11) mod 12 < 12" by simp
  ultimately have hi: "n + 11 < 12 * q + 12" by linarith
  from assms have kq: "k < q" by (simp only: q_def)
  have goal: "min 12 r = (if Suc k < q then 12 else if m = 0 then 12 else m)"
  proof (cases "Suc k < q")
    case True
    then have "12 * k + 24 \<le> 12 * q" by simp
    with lo have "12 \<le> r" unfolding r_def by linarith
    with True show ?thesis by simp
  next
    case False
    with kq have q: "q = Suc k" by simp
    from lo hi q have r: "1 \<le> r" "r \<le> 12" and n: "n = r + 12 * k"
      unfolding r_def by linarith+
    have "n mod 12 = r mod 12" by (simp only: n mod_mult_self2)
    then have mr: "m = r mod 12" by (simp only: m_def)
    show ?thesis
    proof (cases "r = 12")
      case True
      with False mr show ?thesis by simp
    next
      case False
      with r have "r < 12" by simp
      with r mr \<open>\<not> Suc k < q\<close> show ?thesis by simp
    qed
  qed
  then show ?thesis by (simp only: q_def r_def m_def)
qed

lemma length_rows_from: "length (rows_from i d) = (length d - i + 11) div 12"
proof (induction i d rule: rows_from.induct)
  case (1 i d)
  show ?case
  proof (cases "i < length d")
    case True
    with 1 have "length (rows_from i d) = Suc ((length d - (i + 12) + 11) div 12)"
      by (simp only: rows_from.simps[of i d] if_True list.size(4) Suc_eq_plus1)
    from this rows_count_step[OF True] show ?thesis by (rule trans)
  next
    case False
    then have "length d - i = 0" by simp
    with False show ?thesis by (simp add: rows_from.simps[of i d])
  qed
qed

lemma nth_rows_from:
  "k < length (rows_from i d) \<Longrightarrow> rows_from i d ! k = row_text (take 12 (drop (i + 12 * k) d))"
proof (induction i d arbitrary: k rule: rows_from.induct)
  case (1 i d)
  show ?case
  proof (cases "i < length d")
    case True
    note unfold = rows_from.simps[of i d]
    show ?thesis
    proof (cases k)
      case 0
      with True show ?thesis by (simp add: unfold)
    next
      case (Suc j)
      with True "1.prems" have "j < length (rows_from (i + 12) d)" by (simp add: unfold)
      with True "1.IH" have "rows_from (i + 12) d ! j = row_text (take 12 (drop (i + 12 + 12 * j) d))"
        by simp
      moreover have "i + 12 + 12 * j = i + 12 * Suc j" by simp
      ultimately show ?thesis using True Suc by (simp add: unfold)
    qed
  next
    case False
    with "1.prems" show ?thesis by (simp add: rows_from.simps[of i d])
  qed
qed

lemma comma_join:
  "lits \<noteq> [] \<Longrightarrow> str_join '', '' lits @ '','' = str_join '' '' (map (\<lambda>l. l @ '','') lits)"
  by (induction lits rule: induct_list012) simp_all

lemma row_text_commas:
  "chunk \<noteq> [] \<Longrightarrow>
   row_text chunk = ''    '' @ str_join '' '' (map (\<lambda>b. hex_literal b @ '','') chunk) @ ''\<newline>''"
proof -
  assume "chunk \<noteq> []"
  then have "map hex_literal chunk \<noteq> []" by simp
  from comma_join[OF this] show ?thesis by (simp add: row_text_def comp_def)
qed

lemma chunk_length:
  assumes "k < (length d + 11) div 12"
  shows "length (take 12 (drop (12 * k) d))
         = (if Suc k < (length d + 11) div 12 then 12
            else if length d mod 12 = 0 then 12 else length d mod 12)"
proof -
  have "length (take 12 (drop (12 * k) d)) = min 12 (length d - 12 * k)"
    by (simp only: length_take length_drop min.commute)
  from this chunk_size[OF assms] show ?thesis by (rule trans)
qed

subsection \<open>Round trip\<close>

text \<open>
  C1. For every input byte sequence, reading the generated array body back, row by row and
  literal by literal, gives exactly the input bytes. The reader accepts the body as it
  is written, so the empty input (no row) and an input whose length is not a multiple
  of 12 (a short last row) are covered.
\<close>

theorem decode_array_body: "decode_array (array_body spv_data) = Some spv_data"
  using decode_rows_from[of 0 spv_data] by (simp add: decode_array_def array_body_def)

subsection \<open>Row layout\<close>

text \<open>
  C2. The rows of the array body. There are as many rows as 12-byte chunks, the last one
  may be short. Row \<open>k\<close> is four spaces, then the literals of bytes \<open>12 k\<close> to
  \<open>12 k + 11\<close>, each followed by a comma, with one space between a comma and the next
  literal, then a newline. Every row but the last holds 12 literals; the last holds
  \<open>len mod 12\<close> of them, or 12 when the length is a multiple of 12. A literal is
  \<^verbatim>\<open>0x\<close> and two lowercase hexadecimal digits, and reads back as the byte.
\<close>

theorem row_layout:
  "length (rows_from 0 d) = (length d + 11) div 12
   \<and> (\<forall>k < length (rows_from 0 d).
        rows_from 0 d ! k
          = ''    '' @ str_join '' '' (map (\<lambda>b. hex_literal b @ '','') (take 12 (drop (12 * k) d)))
            @ ''\<newline>''
        \<and> length (take 12 (drop (12 * k) d))
          = (if Suc k < length (rows_from 0 d) then 12
             else if length d mod 12 = 0 then 12 else length d mod 12))
   \<and> hex_literal b = [CHR ''0'', CHR ''x'', hex_digit (unat b div 16), hex_digit (unat b mod 16)]
   \<and> hex_digit (unat b div 16) \<in> set ''0123456789abcdef''
   \<and> hex_digit (unat b mod 16) \<in> set ''0123456789abcdef''
   \<and> parse_literal (hex_literal b) = Some b"
proof -
  have len: "length (rows_from 0 d) = (length d + 11) div 12"
    using length_rows_from[of 0 d] by simp
  have rows: "rows_from 0 d ! k
          = ''    '' @ str_join '' '' (map (\<lambda>b. hex_literal b @ '','') (take 12 (drop (12 * k) d)))
            @ ''\<newline>''
        \<and> length (take 12 (drop (12 * k) d))
          = (if Suc k < length (rows_from 0 d) then 12
             else if length d mod 12 = 0 then 12 else length d mod 12)"
    if k: "k < length (rows_from 0 d)" for k
  proof -
    from k have kq: "k < (length d + 11) div 12" by (simp only: len)
    note sz = chunk_length[OF kq]
    have "length (take 12 (drop (12 * k) d)) \<noteq> 0"
      unfolding sz by (simp split: if_splits)
    then have ne: "take 12 (drop (12 * k) d) \<noteq> []" by (simp only: length_0_conv not_False_eq_True)
    from nth_rows_from[OF k] have "rows_from 0 d ! k = row_text (take 12 (drop (12 * k) d))"
      by simp
    with row_text_commas[OF ne] sz show ?thesis by (simp only: len)
  qed
  have "unat b < 256" using unsigned_less[of b] by simp
  then have dv: "unat b div 16 < 16" by simp
  have md: "unat b mod 16 < 16" by simp
  from len rows hex_literal_eq[of b] hex_digit_lower[OF dv] hex_digit_lower[OF md]
    parse_literal_hex_literal[of b]
  show ?thesis by blast
qed

theorem row_layout_witness:
  "length (rows_from 0 [0, 1, 2, 3, 4, 5, 6, 7, 8, 9, 10, 11, 12 :: byte]) = 2
   \<and> rows_from 0 [0, 1, 2, 3, 4, 5, 6, 7, 8, 9, 10, 11, 12 :: byte] ! 1 = ''    0x0c,\<newline>''
   \<and> rows_from 0 [0, 1, 2, 3, 4, 5, 6, 7, 8, 9, 10, 11, 12 :: byte] ! 0
       = ''    0x00, 0x01, 0x02, 0x03, 0x04, 0x05, 0x06, 0x07, 0x08, 0x09, 0x0a, 0x0b,\<newline>''"
proof -
  let ?d = "[0, 1, 2, 3, 4, 5, 6, 7, 8, 9, 10, 11, 12 :: byte]"
  note rl = row_layout[of ?d 12]
  from rl have len: "length (rows_from 0 ?d) = 2" by simp
  then have k1: "1 < length (rows_from 0 ?d)" and k0: "0 < length (rows_from 0 ?d)" by simp_all
  from rl k1 have r1: "rows_from 0 ?d ! 1
      = ''    '' @ str_join '' '' (map (\<lambda>b. hex_literal b @ '','') (take 12 (drop (12 * 1) ?d)))
        @ ''\<newline>''"
    by blast
  from rl k0 have r0: "rows_from 0 ?d ! 0
      = ''    '' @ str_join '' '' (map (\<lambda>b. hex_literal b @ '','') (take 12 (drop (12 * 0) ?d)))
        @ ''\<newline>''"
    by blast
  have lits: "map hex_literal ?d = [''0x00'', ''0x01'', ''0x02'', ''0x03'', ''0x04'', ''0x05'',
      ''0x06'', ''0x07'', ''0x08'', ''0x09'', ''0x0a'', ''0x0b'', ''0x0c'']"
    by (simp add: hex_literal_eq hex_digit_def)
  from len r1 r0 lits show ?thesis by simp
qed

subsection \<open>Size constant\<close>

lemma below_10:
  assumes "(d::nat) < 10"
  shows "d = 0 \<or> d = 1 \<or> d = 2 \<or> d = 3 \<or> d = 4 \<or> d = 5 \<or> d = 6 \<or> d = 7 \<or> d = 8 \<or> d = 9"
proof -
  have "[0..<10] = [0, 1, 2, 3, 4, 5, 6, 7, 8, 9 :: nat]"
    by (simp add: upt_rec)
  moreover from assms have "d \<in> set [0..<10]" by simp
  ultimately show ?thesis by simp
qed

lemma dec_digit_range: "d < 10 \<Longrightarrow> dec_digit d \<in> set ''0123456789''"
  by (drule below_10, elim disjE) (simp_all add: dec_digit_def)

lemma dec_digit_zero: "d < 10 \<Longrightarrow> d \<noteq> 0 \<Longrightarrow> dec_digit d \<noteq> CHR ''0''"
  by (drule below_10, elim disjE) (simp_all add: dec_digit_def)

lemma read_dec_single: "d < 10 \<Longrightarrow> read_dec acc [dec_digit d] = Some (10 * acc + d)"
  by (drule below_10, elim disjE) (simp_all add: dec_digit_def)

lemma read_dec_snoc:
  "read_dec acc (s @ [c]) = (case read_dec acc s of None \<Rightarrow> None | Some a \<Rightarrow> read_dec a [c])"
  by (induction s arbitrary: acc) (simp_all split: option.splits)

lemma read_dec_dec_str: "read_dec 0 (dec_str n) = Some n"
proof (induction n rule: dec_str.induct)
  case (1 n)
  show ?case
  proof (cases "n < 10")
    case True
    with read_dec_single[OF True, of 0] show ?thesis by (simp only: dec_str.simps[of n] if_True) simp
  next
    case False
    have m: "n mod 10 < 10" by simp
    from False 1 have "read_dec 0 (dec_str (n div 10)) = Some (n div 10)" by simp
    with False read_dec_single[OF m, of "n div 10"] show ?thesis
      by (simp only: dec_str.simps[of n] if_False read_dec_snoc option.case) simp
  qed
qed

lemma dec_str_nonempty: "dec_str n \<noteq> []"
  by (subst dec_str.simps) simp

lemma dec_str_digits: "set (dec_str n) \<subseteq> set ''0123456789''"
proof (induction n rule: dec_str.induct)
  case (1 n)
  show ?case
  proof (cases "n < 10")
    case True
    with dec_digit_range[OF True] show ?thesis by (simp add: dec_str.simps[of n])
  next
    case False
    have m: "n mod 10 < 10" by simp
    from False 1 have "set (dec_str (n div 10)) \<subseteq> set ''0123456789''" by simp
    with False dec_digit_range[OF m] show ?thesis by (simp add: dec_str.simps[of n])
  qed
qed

lemma dec_str_leading: "n \<noteq> 0 \<Longrightarrow> hd (dec_str n) \<noteq> CHR ''0''"
proof (induction n rule: dec_str.induct)
  case (1 n)
  show ?case
  proof (cases "n < 10")
    case True
    with "1.prems" dec_digit_zero[of n] show ?thesis by (simp add: dec_str.simps[of n])
  next
    case False
    then have "n div 10 \<noteq> 0" by simp
    with False "1.IH" have "hd (dec_str (n div 10)) \<noteq> CHR ''0''" by simp
    with False dec_str_nonempty[of "n div 10"] show ?thesis by (simp add: dec_str.simps[of n])
  qed
qed

lemma header_writes_nth:
  "k < 9 \<Longrightarrow> header_writes p d n ! k = writes_before p d n ! k"
proof -
  assume k: "k < 9"
  have "length (writes_before p d n) = 9" by (simp add: writes_before_def)
  with k show ?thesis by (simp only: header_writes_def nth_append if_True)
qed

text \<open>
  C3. The eighth write is the declaration of the size constant, and the number in it is
  the length of the input as a decimal literal: digits only, no leading zero, reading
  back as the length; for the empty input it is \<open>0\<close>. For the empty input the loop
  writes no row, so the line that closes the array follows the line that opens it.
\<close>

theorem size_constant:
  "header_writes spv_file spv_data var_name ! 7
     = ''constexpr size_t '' @ var_name @ ''_size = '' @ dec_str (length spv_data) @ '';\<newline>\<newline>''
   \<and> dec_value (dec_str (length spv_data)) = Some (length spv_data)
   \<and> set (dec_str (length spv_data)) \<subseteq> set ''0123456789''
   \<and> (length spv_data \<noteq> 0 \<longrightarrow> hd (dec_str (length spv_data)) \<noteq> CHR ''0'')
   \<and> dec_str 0 = ''0''
   \<and> rows_from 0 [] = []
   \<and> array_body [] = []
   \<and> drop 7 (header_writes spv_file [] var_name)
       = [''constexpr size_t '' @ var_name @ ''_size = 0;\<newline>\<newline>'',
          ''constexpr uint8_t '' @ var_name @ ''_data[] = {\<newline>'',
          ''};\<newline>\<newline>'',
          ''} // namespace Shaders\<newline>\<newline>'',
          ''#endif // '' @ guard_name var_name @ ''\<newline>'']"
proof -
  have a: "header_writes spv_file spv_data var_name ! 7
     = ''constexpr size_t '' @ var_name @ ''_size = '' @ dec_str (length spv_data) @ '';\<newline>\<newline>''"
    by (simp add: header_writes_nth writes_before_def)
  have b: "dec_value (dec_str (length spv_data)) = Some (length spv_data)"
    by (simp add: dec_value_def dec_str_nonempty read_dec_dec_str)
  have z: "dec_str 0 = ''0''" by (simp add: dec_str.simps[of 0] dec_digit_def)
  have r: "rows_from 0 [] = []" by (simp add: rows_from.simps[of 0 "[]"])
  then have e: "array_body [] = []" by (simp add: array_body_def)
  have w: "drop 7 (header_writes spv_file [] var_name)
       = [''constexpr size_t '' @ var_name @ ''_size = 0;\<newline>\<newline>'',
          ''constexpr uint8_t '' @ var_name @ ''_data[] = {\<newline>'',
          ''};\<newline>\<newline>'',
          ''} // namespace Shaders\<newline>\<newline>'',
          ''#endif // '' @ guard_name var_name @ ''\<newline>'']"
    by (simp add: header_writes_def writes_before_def writes_after_def r z)
  from a b dec_str_digits[of "length spv_data"] dec_str_leading[of "length spv_data"] z r e w
  show ?thesis by blast
qed

theorem size_constant_witness:
  "length [42 :: byte] \<noteq> 0
   \<and> hd (dec_str (length [42 :: byte])) \<noteq> CHR ''0''
   \<and> header_writes ''a.spv'' [42] ''a'' ! 7 = ''constexpr size_t a_size = 1;\<newline>\<newline>''
   \<and> dec_value ''1'' = Some 1"
proof -
  have one: "dec_str (Suc 0) = ''1''"
    by (simp add: dec_str.simps[of "Suc 0"] dec_digit_def)
  from size_constant[of "''a.spv''" "[42]" "''a''"] show ?thesis
    by (simp add: one)
qed

subsection \<open>Include guard\<close>









subsection \<open>The whole file\<close>

lemma rows_end_newline:
  "map (\<lambda>l. l @ ''\<newline>'') (map butlast (rows_from i d)) = rows_from i d"
proof (induction i d rule: rows_from.induct)
  case (1 i d)
  show ?case
  proof (cases "i < length d")
    case True
    have "butlast (row_text (take 12 (drop i d))) @ ''\<newline>'' = row_text (take 12 (drop i d))"
      by (simp add: row_text_def butlast_append)
    with True 1 show ?thesis by (simp add: rows_from.simps[of i d])
  next
    case False
    then show ?thesis by (simp add: rows_from.simps[of i d])
  qed
qed

text \<open>
  C5. The text written is the persisted format of the specification: the comment naming
  the base name of the input file, the do-not-edit comment, the guard, the two includes,
  the namespace, the size constant, the array with its rows, the end of the namespace and
  the \<^verbatim>\<open>#endif\<close> with the guard, in this order and with nothing else. The rows of the
  format are the rows the loop writes, without their newlines.
\<close>

theorem output_template:
  "header_text spv_file spv_data var_name
     = persisted_format (''Auto-generated from '' @ basename spv_file) ''DO NOT EDIT!''
         (upper var_name) ''#include <cstdint>'' ''#include <cstddef>'' ''size_t'' ''uint8_t''
         var_name (dec_str (length spv_data)) (map butlast (rows_from 0 spv_data))
   \<and> map (\<lambda>l. l @ ''\<newline>'') (map butlast (rows_from 0 spv_data)) = rows_from 0 spv_data"
proof -
  have "concat (map (\<lambda>l. l @ ''\<newline>'') (map butlast (rows_from 0 spv_data)))
      = concat (rows_from 0 spv_data)"
    by (simp only: rows_end_newline)
  then have "header_text spv_file spv_data var_name
     = persisted_format (''Auto-generated from '' @ basename spv_file) ''DO NOT EDIT!''
         (upper var_name) ''#include <cstdint>'' ''#include <cstddef>'' ''size_t'' ''uint8_t''
         var_name (dec_str (length spv_data)) (map butlast (rows_from 0 spv_data))"
    by (simp add: header_text_def header_writes_def writes_before_def writes_after_def
        persisted_format_def unlines_def guard_name_def del: map_map)
  from this rows_end_newline[of 0 spv_data] show ?thesis by (rule conjI)
qed

subsection \<open>Determinism\<close>






subsection \<open>Writing the header\<close>




subsection \<open>Failures of the entry point\<close>

text \<open>
  C8 as stated fails: every message of the script goes through \<^verbatim>\<open>print\<close>, to the
  standard output; nothing is written to the standard error.
\<close>

theorem missing_input_counterexample:
  "stderr (snd (main [''spv_to_header.py'', ''missing.spv'', ''out.h'', ''x'']
       \<lparr>files = Map.empty, readable = (\<lambda>p. True), writable = (\<lambda>p. True),
        stdout = [], stderr = []\<rparr>)) = []
   \<and> stdout (snd (main [''spv_to_header.py'', ''missing.spv'', ''out.h'', ''x'']
       \<lparr>files = Map.empty, readable = (\<lambda>p. True), writable = (\<lambda>p. True),
        stdout = [], stderr = []\<rparr>)) = ''Error: missing.spv not found\<newline>''"
  by (simp add: main_def print_def)

text \<open>
  C8, amended. When four arguments are given and the input path does not exist, the script
  prints \<^verbatim>\<open>Error: <path> not found\<close> to the standard output, writes nothing to the
  standard error, exits with status 1 and leaves every file as it was.
\<close>

theorem missing_input:
  assumes "length argv = 4" and "files w (argv ! 1) = None"
  shows "main argv w = (Exit 1, w\<lparr>stdout := stdout w @ ''Error: '' @ argv ! 1 @ '' not found\<newline>''\<rparr>)
    \<and> files (snd (main argv w)) = files w
    \<and> stderr (snd (main argv w)) = stderr w"
  using assms by (simp add: main_def print_def Let_def)

theorem missing_input_witness:
  "length [''spv_to_header.py'', ''missing.spv'', ''out.h'', ''x''] = 4
   \<and> files \<lparr>files = [''out.h'' \<mapsto> File [7]], readable = (\<lambda>p. True), writable = (\<lambda>p. True),
             stdout = [], stderr = []\<rparr>
        ([''spv_to_header.py'', ''missing.spv'', ''out.h'', ''x''] ! 1) = None
   \<and> fst (main [''spv_to_header.py'', ''missing.spv'', ''out.h'', ''x'']
       \<lparr>files = [''out.h'' \<mapsto> File [7]], readable = (\<lambda>p. True), writable = (\<lambda>p. True),
        stdout = [], stderr = []\<rparr>) = Exit 1
   \<and> files (snd (main [''spv_to_header.py'', ''missing.spv'', ''out.h'', ''x'']
       \<lparr>files = [''out.h'' \<mapsto> File [7]], readable = (\<lambda>p. True), writable = (\<lambda>p. True),
        stdout = [], stderr = []\<rparr>)) ''out.h'' = Some (File [7])"
proof -
  let ?argv = "[''spv_to_header.py'', ''missing.spv'', ''out.h'', ''x'']"
  let ?w = "\<lparr>files = [''out.h'' \<mapsto> File [7]], readable = (\<lambda>p. True), writable = (\<lambda>p. True),
             stdout = [], stderr = []\<rparr>"
  have l: "length ?argv = 4" by simp
  have m: "files ?w (?argv ! 1) = None" by simp
  from missing_input[OF l m] l m show ?thesis by simp
qed

text \<open>
  C9 as stated fails: with one positional argument the usage message goes to the standard
  output, and the standard error stays empty.
\<close>

theorem wrong_argument_count_counterexample:
  "stderr (snd (main [''spv_to_header.py'', ''in.spv'']
       \<lparr>files = Map.empty, readable = (\<lambda>p. True), writable = (\<lambda>p. True),
        stdout = [], stderr = []\<rparr>)) = []
   \<and> stdout (snd (main [''spv_to_header.py'', ''in.spv'']
       \<lparr>files = Map.empty, readable = (\<lambda>p. True), writable = (\<lambda>p. True),
        stdout = [], stderr = []\<rparr>))
       = ''Usage: spv_to_header.py <input.spv> <output.h> <variable_name>\<newline>''"
  by (simp add: main_def print_def)

text \<open>
  C9, amended. When the number of arguments after the script name is not three, the script
  prints the usage message to the standard output, writes nothing to the standard error,
  exits with status 1 and leaves every file as it was.
\<close>

theorem wrong_argument_count:
  assumes "length argv \<noteq> 4"
  shows "main argv w
      = (Exit 1, w\<lparr>stdout := stdout w
            @ ''Usage: spv_to_header.py <input.spv> <output.h> <variable_name>\<newline>''\<rparr>)
    \<and> files (snd (main argv w)) = files w
    \<and> stderr (snd (main argv w)) = stderr w"
  using assms by (simp add: main_def print_def)

theorem wrong_argument_count_witness:
  "length [''spv_to_header.py'', ''a'', ''b'', ''c'', ''d''] \<noteq> 4
   \<and> fst (main [''spv_to_header.py'', ''a'', ''b'', ''c'', ''d'']
       \<lparr>files = [''a'' \<mapsto> File [1]], readable = (\<lambda>p. True), writable = (\<lambda>p. True),
        stdout = [], stderr = []\<rparr>) = Exit 1
   \<and> files (snd (main [''spv_to_header.py'', ''a'', ''b'', ''c'', ''d'']
       \<lparr>files = [''a'' \<mapsto> File [1]], readable = (\<lambda>p. True), writable = (\<lambda>p. True),
        stdout = [], stderr = []\<rparr>)) ''b'' = None"
proof -
  have l: "length [''spv_to_header.py'', ''a'', ''b'', ''c'', ''d''] \<noteq> 4" by simp
  from wrong_argument_count[OF l, where w = "\<lparr>files = [''a'' \<mapsto> File [1]],
      readable = (\<lambda>p. True), writable = (\<lambda>p. True), stdout = [], stderr = []\<rparr>"] l
  show ?thesis by simp
qed

subsection \<open>Names are not validated\<close>















end
